theory Spec2Isabelle
  imports Main
begin

section \<open>Batched router rebuild (akanda/rug/cli/router.py)\<close>

text \<open>
  A shallow embedding of \<^verbatim>\<open>RouterBatchedRebuild\<close>: the pure chunking helper, the
  batch driver \<^verbatim>\<open>take_action\<close> and the convergence worker \<^verbatim>\<open>check_alive\<close>.
  Python exceptions are values of \<open>exn\<close>; everything the code asks of the outside
  world (Nova, Neutron, the shutdown event, the other threads) is read from scripts
  held in the state, and a script that runs dry leaves the computation \<open>Starved\<close>.
\<close>

subsection \<open>Exceptions\<close>

datatype exn =
    KeyError string
  | IndexError
  | ValueError
  | OverflowError
  | ClientError string
  | KeyboardInterrupt

text \<open>\<^verbatim>\<open>except Exception\<close> catches everything but \<^verbatim>\<open>KeyboardInterrupt\<close>.\<close>

fun is_Exception :: "exn \<Rightarrow> bool" where
  "is_Exception KeyboardInterrupt = False"
| "is_Exception _ = True"

subsection \<open>chunked\<close>

text \<open>
  \<^verbatim>\<open>xrange(start, stop, step)\<close> of Python 2: the numbers \<open>start, start + step, ...\<close>
  before \<open>stop\<close>. Its arguments are converted to C longs first, and one that does not
  fit raises \<^verbatim>\<open>OverflowError\<close>; then a zero step raises \<^verbatim>\<open>ValueError\<close>; then a
  range of more than \<^verbatim>\<open>sys.maxint\<close> items raises \<^verbatim>\<open>OverflowError\<close>.
  \<open>sys_maxint\<close> is \<^verbatim>\<open>sys.maxint\<close> of a 64-bit build, which is also the greatest
  length of a list.
\<close>

definition sys_maxint :: int where
  "sys_maxint = 2 ^ 63 - 1"

definition c_long :: "int \<Rightarrow> bool" where
  "c_long x = (- sys_maxint - 1 \<le> x \<and> x \<le> sys_maxint)"

function xrange_list :: "int \<Rightarrow> int \<Rightarrow> int \<Rightarrow> int list" where
  "xrange_list i stop step =
     (if (0 < step \<and> i < stop) \<or> (step < 0 \<and> stop < i)
      then i # xrange_list (i + step) stop step
      else [])"
  by pat_completeness auto
termination
  by (relation "measure (\<lambda>(i, stop, step). nat (if 0 < step then stop - i else i - stop))")
     auto

declare xrange_list.simps [simp del]

definition xrange :: "int \<Rightarrow> int \<Rightarrow> int \<Rightarrow> exn + int list" where
  "xrange start stop step =
     (if \<not> (c_long start \<and> c_long stop \<and> c_long step) then Inl OverflowError
      else if step = 0 then Inl ValueError
      else if sys_maxint < int (length (xrange_list start stop step)) then Inl OverflowError
      else Inr (xrange_list start stop step))"

text \<open>\<^verbatim>\<open>l[i:j]\<close>: a negative bound counts from the end, and both are clipped to the list.\<close>

definition slice_bound :: "nat \<Rightarrow> int \<Rightarrow> nat" where
  "slice_bound len i = (if i < 0 then nat (max (i + int len) 0) else min (nat i) len)"

definition py_slice :: "'a list \<Rightarrow> int \<Rightarrow> int \<Rightarrow> 'a list" where
  "py_slice l i j =
     (let lo = slice_bound (length l) i; hi = slice_bound (length l) j
      in take (hi - lo) (drop lo l))"

text \<open>
  \<^verbatim>\<open>
  def chunked(cls, l, n):
      for i in xrange(0, len(l), n):
          yield l[i:i+n]
  \<close>
  The generator is modelled by the list of what it yields; the error of \<^verbatim>\<open>xrange\<close>
  is raised before anything is yielded.
\<close>

definition chunked :: "'a list \<Rightarrow> int \<Rightarrow> exn + 'a list list" where
  "chunked l n =
     (case xrange 0 (int (length l)) n of
        Inl e \<Rightarrow> Inl e
      | Inr is \<Rightarrow> Inr (map (\<lambda>i. py_slice l i (i + n)) is))"

text \<open>
  \<^verbatim>\<open>p.add_argument('--batch', action="store", type=int, default=15)\<close>: the value
  of the flag after argparse's conversion to \<^verbatim>\<open>int\<close>, or the default.
\<close>

definition batch_arg :: "int option \<Rightarrow> int" where
  "batch_arg given = (case given of None \<Rightarrow> 15 | Some v \<Rightarrow> v)"

subsection \<open>Routers, servers and the outside world\<close>

text \<open>
  A router is the dict Neutron returns (keys \<^verbatim>\<open>id\<close>, \<^verbatim>\<open>name\<close>, \<^verbatim>\<open>status\<close>);
  \<^verbatim>\<open>router[k]\<close> raises \<^verbatim>\<open>KeyError\<close> on a missing key and the empty dict is falsy.
\<close>

type_synonym router = "(string \<times> string) list"

definition getitem :: "router \<Rightarrow> string \<Rightarrow> exn + string" where
  "getitem d k = (case map_of d k of None \<Rightarrow> Inl (KeyError k) | Some v \<Rightarrow> Inr v)"

text \<open>What the code reads of a Nova server: \<^verbatim>\<open>id\<close>, \<^verbatim>\<open>status\<close> and \<^verbatim>\<open>image['id']\<close>.\<close>

record server =
  server_id :: string
  server_status :: string
  server_image :: string

text \<open>The lines \<^verbatim>\<open>cprint\<close> writes, by kind, with the values formatted into them.\<close>

datatype report =
    Restarting int
  | Spawned nat
  | NoVM string
  | UpToDate string
  | Rebuilding string string
  | Separator nat nat
  | WaitingOn int
  | NextBatch
  | WaitingThreads
  | IsActive string string
  | ThreadError string exn
  | Exiting

datatype event =
    Print report
  | Sleep nat
  | ShowRouter string
  | GetInstance string string
  | Rebuild string
  | SetShutdown
  | JoinThreads

text \<open>
  What the other threads do between two reads of \<^verbatim>\<open>len(self.active)\<close> by the driver:
  they append converged routers, or the operator presses Ctrl-C.
\<close>

datatype tick = Arrive "router list" | CtrlC

text \<open>
  The class-level deques \<^verbatim>\<open>queue\<close> and \<^verbatim>\<open>active\<close>, the scripts of the outside
  world and the trace of effects. \<open>flags\<close> are the successive values of
  \<^verbatim>\<open>THREAD_SHUTDOWN.is_set()\<close>, \<open>neutron_replies\<close> those of
  \<^verbatim>\<open>neutron.show_router(id)\<close> (the value under \<^verbatim>\<open>'router'\<close>, \<open>None\<close> when the key
  is missing), \<open>nova_replies\<close> those of \<^verbatim>\<open>nova.get_instance(router)\<close>.
\<close>

record state =
  queue :: "router list"
  active :: "router list"
  flags :: "bool list"
  neutron_replies :: "(exn + router option) list"
  nova_replies :: "(exn + server option) list"
  ticks :: "tick list"
  trace :: "event list"

datatype 'a result = Return 'a | Raise exn | Starved

definition emit :: "event \<Rightarrow> state \<Rightarrow> state" where
  "emit e s = s\<lparr>trace := trace s @ [e]\<rparr>"

definition cprint :: "report \<Rightarrow> state \<Rightarrow> state" where
  "cprint msg s = emit (Print msg) s"

definition sleep :: "nat \<Rightarrow> state \<Rightarrow> state" where
  "sleep n s = emit (Sleep n) s"

text \<open>
  \<^verbatim>\<open>
  def get_instance(self, router):
      router = RouterBatchedRebuild.Router(id=router['id'], name=router['name'])
      return self.nova.get_instance(router)
  \<close>
\<close>

definition get_instance :: "router \<Rightarrow> state \<Rightarrow> server option result \<times> state" where
  "get_instance router s =
     (case getitem router ''id'' of
        Inl e \<Rightarrow> (Raise e, s)
      | Inr i \<Rightarrow>
          (case getitem router ''name'' of
             Inl e \<Rightarrow> (Raise e, s)
           | Inr n \<Rightarrow>
               (case nova_replies s of
                  [] \<Rightarrow> (Starved, s)
                | x # xs \<Rightarrow>
                    (case x of Inl e \<Rightarrow> Raise e | Inr v \<Rightarrow> Return v,
                     emit (GetInstance i n) (s\<lparr>nova_replies := xs\<rparr>)))))"

subsection \<open>The batch driver: take_action\<close>

text \<open>
  Lines 213-225, the loop over one chunk that fills \<^verbatim>\<open>rebooting\<close>. The branch for
  a missing server prints and falls through to the lines after the \<^verbatim>\<open>if\<close>; only the
  up-to-date branch has a \<^verbatim>\<open>continue\<close>.
\<close>

fun select_rebooting :: "string \<Rightarrow> router list \<Rightarrow> router list \<Rightarrow> state
    \<Rightarrow> router list result \<times> state" where
  "select_rebooting target [] rebooting s = (Return rebooting, s)"
| "select_rebooting target (router # chunk) rebooting s =
     (case get_instance router s of
        (Raise e, s1) \<Rightarrow> (Raise e, s1)
      | (Starved, s1) \<Rightarrow> (Starved, s1)
      | (Return found, s1) \<Rightarrow>
          (case getitem router ''id'' of
             Inl e \<Rightarrow> (Raise e, s1)
           | Inr i \<Rightarrow>
               (case getitem router ''name'' of
                  Inl e \<Rightarrow> (Raise e, s1)
                | Inr n \<Rightarrow>
                    (case found of
                       None \<Rightarrow>
                         select_rebooting target chunk (rebooting @ [router])
                           (cprint (Rebuilding i n) (cprint (NoVM i) s1))
                     | Some srv \<Rightarrow>
                         if target = server_image srv
                         then select_rebooting target chunk rebooting (cprint (UpToDate i) s1)
                         else select_rebooting target chunk (rebooting @ [router])
                                (cprint (Rebuilding i n) s1)))))"

text \<open>Lines 231-232: \<^verbatim>\<open>self.app.run(['--debug', 'router', 'rebuild', router['id']])\<close>.\<close>

fun rebuild_all :: "router list \<Rightarrow> state \<Rightarrow> unit result \<times> state" where
  "rebuild_all [] s = (Return (), s)"
| "rebuild_all (router # rest) s =
     (case getitem router ''id'' of
        Inl e \<Rightarrow> (Raise e, s)
      | Inr i \<Rightarrow> rebuild_all rest (emit (Rebuild i) s))"

text \<open>
  Lines 210-242: reset both deques, select, and when something is to be rebuilt seed the
  queue, send the rebuilds and announce the wait. The result is \<^verbatim>\<open>rebooting\<close>.
\<close>

definition start_chunk :: "string \<Rightarrow> nat \<Rightarrow> nat \<Rightarrow> router list \<Rightarrow> state
    \<Rightarrow> router list result \<times> state" where
  "start_chunk target i nrouters chunk s =
     (case select_rebooting target chunk [] (s\<lparr>queue := [], active := []\<rparr>) of
        (Raise e, s1) \<Rightarrow> (Raise e, s1)
      | (Starved, s1) \<Rightarrow> (Starved, s1)
      | (Return rebooting, s1) \<Rightarrow>
          if rebooting = [] then (Return [], s1)
          else
            (case rebuild_all rebooting (s1\<lparr>queue := queue s1 @ rebooting\<rparr>) of
               (Raise e, s2) \<Rightarrow> (Raise e, s2)
             | (Starved, s2) \<Rightarrow> (Starved, s2)
             | (Return u, s2) \<Rightarrow>
                 (Return rebooting,
                  cprint (WaitingOn (int (length rebooting)))
                    (cprint (Separator i nrouters) s2))))"

text \<open>One read of \<^verbatim>\<open>len(self.active)\<close>, after what the workers did since the last one.\<close>

definition len_active :: "state \<Rightarrow> nat result \<times> state" where
  "len_active s =
     (case ticks s of
        [] \<Rightarrow> (Starved, s)
      | t # ts \<Rightarrow>
          (case t of
             CtrlC \<Rightarrow> (Raise KeyboardInterrupt, s\<lparr>ticks := ts\<rparr>)
           | Arrive rs \<Rightarrow>
               (Return (length (active s @ rs)), s\<lparr>ticks := ts, active := active s @ rs\<rparr>)))"

lemma len_active_ticks:
  "len_active s = (Return a, s1) \<Longrightarrow> length (ticks s1) < length (ticks s)"
  by (auto simp: len_active_def split: list.splits tick.splits)

text \<open>
  Lines 244-254, with \<open>n = len(rebooting)\<close>:
  \<^verbatim>\<open>
  while len(self.active) < len(rebooting):
      new_total = len(rebooting) - len(self.active)
      if total != new_total:
          total = new_total
          if total:
              self.cprint("Waiting on %s routers to become ACTIVE....<Ctrl-C to skip>" % total, 'blue')
              time.sleep(5)
  \<close>
\<close>

function wait_active :: "nat \<Rightarrow> int \<Rightarrow> state \<Rightarrow> unit result \<times> state" where
  "wait_active n tot s =
     (case len_active s of
        (Raise e, s1) \<Rightarrow> (Raise e, s1)
      | (Starved, s1) \<Rightarrow> (Starved, s1)
      | (Return a, s1) \<Rightarrow>
          if a < n then
            (case len_active s1 of
               (Raise e, s2) \<Rightarrow> (Raise e, s2)
             | (Starved, s2) \<Rightarrow> (Starved, s2)
             | (Return b, s2) \<Rightarrow>
                 if tot \<noteq> int n - int b then
                   (if int n - int b \<noteq> 0
                    then wait_active n (int n - int b)
                           (sleep 5 (cprint (WaitingOn (int n - int b)) s2))
                    else wait_active n (int n - int b) s2)
                 else wait_active n tot s2)
          else (Return (), s1))"
  by pat_completeness auto
termination
proof (relation "measure (\<lambda>(n, tot, s). length (ticks s))", goal_cases)
  case 1
  show ?case by simp
next
  case (2 n tot s x1 s1 a x2 s2 b)
  then show ?case
    using len_active_ticks [of s a s1] len_active_ticks [of s1 b s2]
    by (simp add: sleep_def cprint_def emit_def)
next
  case (3 n tot s x1 s1 a x2 s2 b)
  then show ?case
    using len_active_ticks [of s a s1] len_active_ticks [of s1 b s2] by simp
next
  case (4 n tot s x1 s1 a x2 s2 b)
  then show ?case
    using len_active_ticks [of s a s1] len_active_ticks [of s1 b s2] by simp
qed

declare wait_active.simps [simp del]

text \<open>
  Lines 210-263, one round of the loop over the chunks: the wait ends when the workers
  have filled \<^verbatim>\<open>active\<close>, or at a \<^verbatim>\<open>KeyboardInterrupt\<close>, which only ends this wait.
\<close>

definition process_chunk :: "string \<Rightarrow> nat \<Rightarrow> nat \<Rightarrow> router list \<Rightarrow> state
    \<Rightarrow> unit result \<times> state" where
  "process_chunk target i nrouters chunk s =
     (case start_chunk target i nrouters chunk s of
        (Raise e, s1) \<Rightarrow> (Raise e, s1)
      | (Starved, s1) \<Rightarrow> (Starved, s1)
      | (Return rebooting, s1) \<Rightarrow>
          if rebooting = [] then (Return (), s1)
          else
            (case wait_active (length rebooting) (int (length rebooting)) s1 of
               (Raise e, s2) \<Rightarrow>
                 if e = KeyboardInterrupt then (Return (), cprint NextBatch s2)
                 else (Raise e, s2)
             | (Starved, s2) \<Rightarrow> (Starved, s2)
             | (Return u, s2) \<Rightarrow> (Return (), s2)))"

fun process_chunks :: "string \<Rightarrow> nat \<Rightarrow> nat \<Rightarrow> router list list \<Rightarrow> state
    \<Rightarrow> unit result \<times> state" where
  "process_chunks target nrouters i [] s = (Return (), s)"
| "process_chunks target nrouters i (chunk # chunks) s =
     (case process_chunk target i nrouters chunk s of
        (Raise e, s1) \<Rightarrow> (Raise e, s1)
      | (Starved, s1) \<Rightarrow> (Starved, s1)
      | (Return u, s1) \<Rightarrow> process_chunks target nrouters (Suc i) chunks s1)"

text \<open>
  \<^verbatim>\<open>spawn_threads\<close> starts \<^verbatim>\<open>min(max_threads, cpu_count())\<close> workers (none when that
  is not positive) and prints how many.
\<close>

definition spawn_threads :: "int \<Rightarrow> int \<Rightarrow> state \<Rightarrow> state" where
  "spawn_threads max_threads cpu_count s = cprint (Spawned (nat (min max_threads cpu_count))) s"

definition take_action :: "int \<Rightarrow> int \<Rightarrow> string \<Rightarrow> router list \<Rightarrow> state
    \<Rightarrow> unit result \<times> state" where
  "take_action batch cpu_count target routers s =
     (let s1 = spawn_threads batch cpu_count (cprint (Restarting batch) s) in
      case chunked routers batch of
        Inl e \<Rightarrow> (Raise e, s1)
      | Inr chunks \<Rightarrow>
          (case process_chunks target (length routers) 0 chunks s1 of
             (Raise e, s2) \<Rightarrow> (Raise e, s2)
           | (Starved, s2) \<Rightarrow> (Starved, s2)
           | (Return u, s2) \<Rightarrow>
               (Return (), emit JoinThreads (emit SetShutdown (cprint WaitingThreads s2)))))"

subsection \<open>The convergence worker: check_alive\<close>

text \<open>
  \<^verbatim>\<open>
  def pop():
      router = None
      while router is None:
          if RouterBatchedRebuild.THREAD_SHUTDOWN.is_set():
              return None, None
          try:
              router = queue.pop()
          except IndexError:
              time.sleep(1)
      return router, getattr(self.get_instance(router), 'id', None)
  \<close>
  \<^verbatim>\<open>deque.pop()\<close> takes the rightmost element. The lookup of the baseline stands
  outside the \<^verbatim>\<open>try\<close>, so what it raises leaves \<^verbatim>\<open>pop\<close>.
\<close>

function pop :: "state \<Rightarrow> (router option \<times> string option) result \<times> state" where
  "pop s =
     (case flags s of
        [] \<Rightarrow> (Starved, s)
      | f # fs \<Rightarrow>
          if f then (Return (None, None), s\<lparr>flags := fs\<rparr>)
          else if queue s = [] then pop (sleep 1 (s\<lparr>flags := fs\<rparr>))
          else
            (case get_instance (last (queue s)) (s\<lparr>flags := fs, queue := butlast (queue s)\<rparr>) of
               (Raise e, s1) \<Rightarrow> (Raise e, s1)
             | (Starved, s1) \<Rightarrow> (Starved, s1)
             | (Return found, s1) \<Rightarrow>
                 (Return (Some (last (queue s)), map_option server_id found), s1)))"
  by pat_completeness auto
termination
  by (relation "measure (\<lambda>s. length (flags s))") (auto simp: sleep_def emit_def)

declare pop.simps [simp del]

text \<open>
  Lines 317-329, one poll: throttle, fetch the router again, look its server up again,
  and the four tests. The second component is the binding of \<^verbatim>\<open>router\<close> when the
  poll ends (line 318 assigns it), which the \<^verbatim>\<open>except\<close> block reads.
\<close>

datatype verdict = Waiting | Converged server

definition poll :: "router \<Rightarrow> string option \<Rightarrow> state \<Rightarrow> verdict result \<times> router \<times> state" where
  "poll router old_uuid s =
     (case getitem router ''id'' of
        Inl e \<Rightarrow> (Raise e, router, sleep 1 s)
      | Inr i \<Rightarrow>
          (case neutron_replies s of
             [] \<Rightarrow> (Starved, router, sleep 1 s)
           | x # xs \<Rightarrow>
               (case x of
                  Inl e \<Rightarrow> (Raise e, router, emit (ShowRouter i) (sleep 1 (s\<lparr>neutron_replies := xs\<rparr>)))
                | Inr got \<Rightarrow>
                    (case get_instance (case got of None \<Rightarrow> [] | Some d \<Rightarrow> d)
                            (emit (ShowRouter i) (sleep 1 (s\<lparr>neutron_replies := xs\<rparr>))) of
                       (Raise e, s1) \<Rightarrow> (Raise e, case got of None \<Rightarrow> [] | Some d \<Rightarrow> d, s1)
                     | (Starved, s1) \<Rightarrow> (Starved, case got of None \<Rightarrow> [] | Some d \<Rightarrow> d, s1)
                     | (Return None, s1) \<Rightarrow>
                         (Return Waiting, case got of None \<Rightarrow> [] | Some d \<Rightarrow> d, s1)
                     | (Return (Some srv), s1) \<Rightarrow>
                         (if server_status srv \<noteq> ''ACTIVE'' then Return Waiting
                          else if \<not> (old_uuid \<noteq> Some (server_id srv)) then Return Waiting
                          else
                            (case getitem (case got of None \<Rightarrow> [] | Some d \<Rightarrow> d) ''status'' of
                               Inl e \<Rightarrow> Raise e
                             | Inr st \<Rightarrow>
                                 if st \<noteq> ''ACTIVE'' then Return Waiting
                                 else Return (Converged srv)),
                          case got of None \<Rightarrow> [] | Some d \<Rightarrow> d, s1)))))"

text \<open>
  Lines 316-335, the body of the \<^verbatim>\<open>try\<close>: after a poll that converged, print,
  \<^verbatim>\<open>active.append(router)\<close> and \<^verbatim>\<open>router, old_uuid = pop()\<close>. \<open>Next\<close> is the
  body ending normally with the new bindings, \<open>Caught\<close> an exception on its way to the
  \<^verbatim>\<open>except\<close> block, with the binding of \<^verbatim>\<open>router\<close> then.
\<close>

datatype step =
    Next "router option" "string option" state
  | Caught exn router state
  | Stalled state

definition try_body :: "router \<Rightarrow> string option \<Rightarrow> state \<Rightarrow> step" where
  "try_body router old_uuid s =
     (case poll router old_uuid s of
        (Raise e, r, s1) \<Rightarrow> Caught e r s1
      | (Starved, r, s1) \<Rightarrow> Stalled s1
      | (Return Waiting, r, s1) \<Rightarrow> Next (Some r) old_uuid s1
      | (Return (Converged srv), r, s1) \<Rightarrow>
          (case getitem r ''id'' of
             Inl e \<Rightarrow> Caught e r s1
           | Inr i \<Rightarrow>
               (case pop ((cprint (IsActive i (server_id srv)) s1)\<lparr>active := active s1 @ [r]\<rparr>) of
                  (Raise e, s2) \<Rightarrow> Caught e r s2
                | (Starved, s2) \<Rightarrow> Stalled s2
                | (Return (r', old'), s2) \<Rightarrow> Next r' old' s2)))"

lemma get_instance_flags: "get_instance r s = (x, s1) \<Longrightarrow> flags s1 = flags s"
  by (auto simp: get_instance_def emit_def split: sum.splits list.splits)

lemma pop_flags: "pop s = (x, s1) \<Longrightarrow> length (flags s1) \<le> length (flags s)"
proof (induction s arbitrary: x s1 rule: pop.induct)
  case (1 s)
  show ?case
  proof (cases "flags s")
    case Nil
    with 1(2) show ?thesis by (subst (asm) pop.simps) simp
  next
    case (Cons f fs)
    show ?thesis
    proof (cases "\<not> f \<and> queue s = []")
      case True
      with Cons 1(2) have "pop (sleep 1 (s\<lparr>flags := fs\<rparr>)) = (x, s1)"
        by (subst (asm) pop.simps) simp
      with 1(1) [of f fs x s1] Cons True show ?thesis
        by (simp add: sleep_def emit_def)
    next
      case False
      with Cons 1(2) show ?thesis
        by (subst (asm) pop.simps)
           (auto split: prod.splits result.splits if_splits dest!: get_instance_flags)
    qed
  qed
qed

lemma poll_flags: "poll r old s = (x, r1, s1) \<Longrightarrow> flags s1 = flags s"
  unfolding poll_def
  by (auto simp: emit_def sleep_def
      split: sum.splits list.splits prod.splits result.splits option.splits
      dest!: get_instance_flags)

lemma try_body_flags:
  "try_body r old s = Next r' old' s' \<Longrightarrow> length (flags s') \<le> length (flags s)"
  "try_body r old s = Caught e r'' s' \<Longrightarrow> length (flags s') \<le> length (flags s)"
  unfolding try_body_def
  by (auto simp: cprint_def emit_def
      split: prod.splits result.splits verdict.splits sum.splits
      dest!: poll_flags pop_flags)

text \<open>
  Lines 315-350, the loop of \<^verbatim>\<open>check_alive\<close> and its \<^verbatim>\<open>except Exception\<close> block:
  \<^verbatim>\<open>
  while router and not RouterBatchedRebuild.THREAD_SHUTDOWN.is_set():
      try:
          ...
      except Exception as e:
          self.cprint('Thread %d encountered an error handling router %s: %s' % (
              thread.get_ident(), router['id'], str(e)), 'red')
          # put the router back into the work queue so another healthy
          # thread can grab it
          queue.append(router)
          continue
  self.cprint('Thread %d is exiting...' % thread.get_ident(), 'yellow')
  \<close>
  \<open>Exited\<close> is the return of \<^verbatim>\<open>check_alive\<close>, \<open>Died\<close> an exception leaving it (the
  thread ends), \<open>Running\<close> a worker still at work when the scripts run dry.
\<close>

datatype outcome = Exited state | Died exn state | Running state

function worker_loop :: "router option \<Rightarrow> string option \<Rightarrow> state \<Rightarrow> outcome" where
  "worker_loop router old_uuid s =
     (case router of
        None \<Rightarrow> Exited (cprint Exiting s)
      | Some r \<Rightarrow>
          if r = [] then Exited (cprint Exiting s)
          else
            (case flags s of
               [] \<Rightarrow> Running s
             | f # fs \<Rightarrow>
                 if f then Exited (cprint Exiting (s\<lparr>flags := fs\<rparr>))
                 else
                   (case try_body r old_uuid (s\<lparr>flags := fs\<rparr>) of
                      Next r' old' s1 \<Rightarrow> worker_loop r' old' s1
                    | Stalled s1 \<Rightarrow> Running s1
                    | Caught e r' s1 \<Rightarrow>
                        if \<not> is_Exception e then Died e s1
                        else
                          (case getitem r' ''id'' of
                             Inl e' \<Rightarrow> Died e' s1
                           | Inr i \<Rightarrow>
                               worker_loop (Some r') old_uuid
                                 ((cprint (ThreadError i e) s1)\<lparr>queue := queue s1 @ [r']\<rparr>)))))"
  by pat_completeness auto
termination
proof (relation "measure (\<lambda>(router, old_uuid, s). length (flags s))", goal_cases)
  case 1
  show ?case by simp
next
  case (2 router old_uuid s r f fs r' old' s1)
  then show ?case
    using try_body_flags(1) [of r old_uuid "s\<lparr>flags := fs\<rparr>" r' old' s1] by simp
next
  case (3 router old_uuid s r f fs e r' s1 i)
  then show ?case
    using try_body_flags(2) [of r old_uuid "s\<lparr>flags := fs\<rparr>" e r' s1]
    by (simp add: cprint_def emit_def)
qed

declare worker_loop.simps [simp del]

text \<open>Line 313 and the loop: \<^verbatim>\<open>router, old_uuid = pop()\<close> stands before the \<^verbatim>\<open>try\<close>.\<close>

definition check_alive :: "state \<Rightarrow> outcome" where
  "check_alive s =
     (case pop s of
        (Raise e, s1) \<Rightarrow> Died e s1
      | (Starved, s1) \<Rightarrow> Running s1
      | (Return (router, old_uuid), s1) \<Rightarrow> worker_loop router old_uuid s1)"

subsection \<open>The selection of a chunk, as the amended C1 states it\<close>



subsection \<open>The fixtures of the unit tests\<close>

text \<open>
  \<^verbatim>\<open>r = {'id': '123', 'name': 'ak-456', 'status': 'ACTIVE'}\<close> of test_router.py, a
  second router, a state with empty deques and empty scripts, and a server as the
  tests mock it (\<^verbatim>\<open>mock.Mock(id=..., status=...)\<close>, with an image that is not the
  target).
\<close>

definition test_router :: router where
  "test_router = [(''id'', ''123''), (''name'', ''ak-456''), (''status'', ''ACTIVE'')]"

definition other_router :: router where
  "other_router = [(''id'', ''789''), (''name'', ''ak-012''), (''status'', ''ACTIVE'')]"

definition quiet :: state where
  "quiet = \<lparr>queue = [], active = [], flags = [], neutron_replies = [], nova_replies = [],
     ticks = [], trace = []\<rparr>"

definition vm :: "string \<Rightarrow> string \<Rightarrow> server" where
  "vm i st = \<lparr>server_id = i, server_status = st, server_image = ''OUT-OF-DATE''\<rparr>"

lemmas fixtures = test_router_def other_router_def quiet_def vm_def

lemmas worker_simps = check_alive_def pop.simps worker_loop.simps try_body_def poll_def
  get_instance_def getitem_def emit_def cprint_def sleep_def

lemmas driver_simps = start_chunk_def get_instance_def getitem_def emit_def cprint_def sleep_def

lemmas loop_simps = check_alive_def pop.simps worker_loop.simps try_body_def poll_def
  get_instance_def emit_def cprint_def sleep_def

section \<open>Properties\<close>

subsection \<open>chunked\<close>

lemma py_slice_chunk:
  "0 \<le> i \<Longrightarrow> 0 < n \<Longrightarrow> py_slice l i (i + n) = take (nat n) (drop (nat i) l)"
  by (auto simp: py_slice_def slice_bound_def Let_def min_def nat_add_distrib)

lemma xrange_list_pos_nil: "0 < n \<Longrightarrow> stop \<le> i \<Longrightarrow> xrange_list i stop n = []"
  by (simp add: xrange_list.simps)

lemma xrange_list_pos_cons:
  "0 < n \<Longrightarrow> i < stop \<Longrightarrow> xrange_list i stop n = i # xrange_list (i + n) stop n"
  by (subst xrange_list.simps) simp

lemma xrange_list_neg_nil: "n < 0 \<Longrightarrow> i \<le> stop \<Longrightarrow> xrange_list i stop n = []"
  by (simp add: xrange_list.simps)

lemma concat_chunks_from:
  "0 < n \<Longrightarrow> 0 \<le> i \<Longrightarrow>
   concat (map (\<lambda>j. py_slice l j (j + n)) (xrange_list i (int (length l)) n)) = drop (nat i) l"
proof (induction i "int (length l)" n rule: xrange_list.induct)
  case (1 i n)
  show ?case
  proof (cases "i < int (length l)")
    case True
    have "drop (nat (i + n)) l = drop (nat n) (drop (nat i) l)"
      using 1(2,3) by (simp add: nat_add_distrib add.commute)
    then have "take (nat n) (drop (nat i) l) @ drop (nat (i + n)) l = drop (nat i) l"
      by (simp only: append_take_drop_id)
    moreover have "concat (map (\<lambda>j. py_slice l j (j + n)) (xrange_list (i + n) (int (length l)) n))
        = drop (nat (i + n)) l"
      using True 1 by simp
    ultimately show ?thesis
      using True 1(2,3) by (simp only: xrange_list_pos_cons py_slice_chunk list.map concat.simps)
  next
    case False
    with 1 show ?thesis by (simp add: xrange_list_pos_nil)
  qed
qed

lemma length_xrange_list:
  "0 < n \<Longrightarrow> length (xrange_list i stop n) = nat ((stop - i + n - 1) div n)"
proof (induction i stop n rule: xrange_list.induct)
  case (1 i stop n)
  show ?case
  proof (cases "i < stop")
    case True
    have "(stop - i + n - 1) div n = (stop - (i + n) + n - 1) div n + 1"
      using 1(2) div_add_self2 [of n "stop - (i + n) + n - 1"] by (simp add: algebra_simps)
    moreover have "0 \<le> (stop - (i + n) + n - 1) div n"
      using True 1(2) by (simp add: pos_imp_zdiv_nonneg_iff)
    ultimately show ?thesis using True 1
      by (simp add: xrange_list_pos_cons nat_add_distrib)
  next
    case False
    then have "stop - i + n - 1 < n" by simp
    then have "(stop - i + n - 1) div n \<le> (n - 1) div n"
      using 1(2) by (intro zdiv_mono1) simp_all
    then have "(stop - i + n - 1) div n \<le> 0"
      using 1(2) by (simp add: div_pos_pos_trivial)
    with False 1 show ?thesis by (simp add: xrange_list_pos_nil)
  qed
qed

lemma xrange_list_bounds:
  "0 < n \<Longrightarrow> j \<in> set (xrange_list i stop n) \<Longrightarrow> i \<le> j \<and> j < stop"
proof (induction i stop n rule: xrange_list.induct)
  case (1 i stop n)
  show ?case
  proof (cases "i < stop")
    case True
    with 1 show ?thesis by (auto simp: xrange_list_pos_cons)
  next
    case False
    with 1 show ?thesis by (simp add: xrange_list_pos_nil)
  qed
qed


lemma xrange_list_nth:
  "0 < n \<Longrightarrow> k < length (xrange_list i stop n) \<Longrightarrow> xrange_list i stop n ! k = i + int k * n"
proof (induction i stop n arbitrary: k rule: xrange_list.induct)
  case (1 i stop n)
  show ?case
  proof (cases "i < stop")
    case True
    note cons = xrange_list_pos_cons [OF 1(2) True]
    show ?thesis
    proof (cases k)
      case 0
      then show ?thesis by (simp add: cons)
    next
      case (Suc m)
      with 1(3) have "m < length (xrange_list (i + n) stop n)" by (simp add: cons)
      with 1(1) [of m] True 1(2) have "xrange_list (i + n) stop n ! m = i + n + int m * n"
        by simp
      with Suc show ?thesis by (simp add: cons algebra_simps)
    qed
  next
    case False
    with 1 show ?thesis by (simp add: xrange_list_pos_nil)
  qed
qed

lemma xrange_list_last:
  "0 < n \<Longrightarrow> xrange_list i stop n \<noteq> [] \<Longrightarrow>
   stop \<le> last (xrange_list i stop n) + n \<and> (last (xrange_list i stop n) - i) mod n = 0"
proof (induction i stop n rule: xrange_list.induct)
  case (1 i stop n)
  show ?case
  proof (cases "i < stop")
    case True
    note cons = xrange_list_pos_cons [OF 1(2) True]
    show ?thesis
    proof (cases "xrange_list (i + n) stop n = []")
      case True
      then have "stop \<le> i + n"
        using 1(2) by (subst (asm) xrange_list.simps) (simp split: if_splits)
      with True show ?thesis by (simp add: cons)
    next
      case False
      with 1(1) \<open>i < stop\<close> 1(2)
      have ih: "stop \<le> last (xrange_list (i + n) stop n) + n"
        "(last (xrange_list (i + n) stop n) - (i + n)) mod n = 0" by simp_all
      have "(last (xrange_list (i + n) stop n) - i) mod n
          = ((last (xrange_list (i + n) stop n) - (i + n)) + n) mod n"
        by (simp add: algebra_simps)
      also have "\<dots> = 0" using ih(2) by (simp only: mod_add_self2)
      finally show ?thesis using False ih(1) by (simp add: cons)
    qed
  next
    case False
    with 1 show ?thesis by (simp add: xrange_list_pos_nil)
  qed
qed

lemma chunk_length:
  assumes "0 \<le> j" "0 < n" "j \<le> int (length l)"
  shows "int (length (py_slice l j (j + n))) = min n (int (length l) - j)"
proof -
  have "length (py_slice l j (j + n)) = min (length l - nat j) (nat n)"
    using assms by (simp add: py_slice_chunk)
  with assms show ?thesis by (simp add: min_def) linarith
qed

lemma length_xrange_list_le:
  "0 < n \<Longrightarrow> int (length (xrange_list i stop n)) \<le> max 0 (stop - i)"
proof (induction i stop n rule: xrange_list.induct)
  case (1 i stop n)
  show ?case
  proof (cases "i < stop")
    case True
    with 1 show ?thesis by (simp add: xrange_list_pos_cons)
  next
    case False
    with 1 show ?thesis by (simp add: xrange_list_pos_nil)
  qed
qed

lemma c_long_0: "c_long 0"
  by (simp add: c_long_def sys_maxint_def)

lemma chunked_positive:
  assumes "0 < n" "n \<le> sys_maxint" "int (length l) \<le> sys_maxint"
  shows "chunked l n = Inr (map (\<lambda>i. py_slice l i (i + n)) (xrange_list 0 (int (length l)) n))"
proof -
  have "int (length (xrange_list 0 (int (length l)) n)) \<le> sys_maxint"
    using length_xrange_list_le [OF assms(1), of 0 "int (length l)"] assms(3) by simp
  moreover have "c_long n" "c_long (int (length l))"
    using assms by (simp_all add: c_long_def sys_maxint_def)
  ultimately show ?thesis
    using assms(1) by (simp add: chunked_def xrange_def c_long_0)
qed

lemma chunked_negative:
  assumes "n < 0" "- sys_maxint - 1 \<le> n" "int (length l) \<le> sys_maxint"
  shows "chunked l n = Inr []"
proof -
  have "c_long n" "c_long (int (length l))"
    using assms by (simp_all add: c_long_def sys_maxint_def)
  moreover have "0 \<le> sys_maxint" by (simp add: sys_maxint_def)
  ultimately show ?thesis
    using assms(1) by (simp add: chunked_def xrange_def c_long_0 xrange_list_neg_nil)
qed

lemma chunked_zero:
  assumes "int (length l) \<le> sys_maxint"
  shows "chunked l 0 = Inl ValueError"
proof -
  have "c_long (int (length l))"
    using assms by (simp add: c_long_def sys_maxint_def)
  then show ?thesis by (simp add: chunked_def xrange_def c_long_0)
qed

lemma chunked_overflow:
  assumes "sys_maxint < n \<or> n < - sys_maxint - 1"
  shows "chunked l n = Inl OverflowError"
  using assms by (auto simp: chunked_def xrange_def c_long_def)

lemmas chunked_eval = chunked_def xrange_def c_long_def sys_maxint_def xrange_list.simps
  py_slice_def slice_bound_def

text \<open>
  C5, as stated, speaks of every positive integer \<open>n\<close>. The value of \<^verbatim>\<open>--batch\<close> is a
  Python integer of any size, and \<^verbatim>\<open>xrange\<close> takes C longs only: at \<open>n = 2^63\<close> it
  raises \<^verbatim>\<open>OverflowError\<close> and \<open>chunked\<close> yields nothing.
\<close>

theorem chunked_huge_size_overflows:
  "(0::int) < 9223372036854775808
   \<and> chunked [1, 2, 3 :: nat] 9223372036854775808 = Inl OverflowError"
  by (simp add: chunked_def xrange_def c_long_def sys_maxint_def)

text \<open>
  C5, amended. For every list \<open>l\<close> (of at most \<^verbatim>\<open>sys.maxint\<close> elements, as every Python
  list is) and every positive \<open>n\<close> that fits a C long (\<open>n \<le> sys.maxint\<close>),
  \<open>chunked l n\<close> returns chunks whose concatenation is \<open>l\<close> itself; every chunk but the
  last has length \<open>n\<close>, and the last has length \<open>len(l) mod n\<close>, or \<open>n\<close> when \<open>n\<close>
  divides \<open>len(l)\<close>.
\<close>

theorem chunked_partition:
  assumes "0 < n" and "n \<le> sys_maxint" and "int (length l) \<le> sys_maxint"
  shows "\<exists>cs. chunked l n = Inr cs \<and> concat cs = l
     \<and> (\<forall>k. Suc k < length cs \<longrightarrow> int (length (cs ! k)) = n)
     \<and> (cs \<noteq> [] \<longrightarrow> int (length (last cs))
           = (if int (length l) mod n = 0 then n else int (length l) mod n))"
proof -
  let ?is = "xrange_list 0 (int (length l)) n"
  let ?cs = "map (\<lambda>i. py_slice l i (i + n)) ?is"
  have eq: "chunked l n = Inr ?cs"
    using assms by (rule chunked_positive)
  have cat: "concat ?cs = l"
    using concat_chunks_from [OF assms(1), of 0 l] by simp
  have full: "int (length (?cs ! k)) = n" if k: "Suc k < length ?cs" for k
  proof -
    from k have k': "Suc k < length ?is" "k < length ?is" by simp_all
    have "?is ! Suc k \<in> set ?is" using k'(1) by (rule nth_mem)
    then have "?is ! Suc k < int (length l)"
      using xrange_list_bounds [OF assms(1)] by blast
    moreover have "?is ! Suc k = int (Suc k) * n"
      using xrange_list_nth [OF assms(1) k'(1)] by simp
    moreover have ik: "?is ! k = int k * n"
      using xrange_list_nth [OF assms(1) k'(2)] by simp
    ultimately have "int k * n + n < int (length l)" by (simp add: algebra_simps)
    moreover have "0 \<le> int k * n" using assms by simp
    ultimately have "int (length (py_slice l (int k * n) (int k * n + n))) = n"
      using assms chunk_length [of "int k * n" n l] by simp
    with ik k'(2) show ?thesis by simp
  qed
  have lst: "int (length (last ?cs))
      = (if int (length l) mod n = 0 then n else int (length l) mod n)" if ne: "?cs \<noteq> []"
  proof -
    from ne have ne': "?is \<noteq> []" by simp
    define j where "j = last ?is"
    have "j \<in> set ?is" unfolding j_def using ne' by (rule last_in_set)
    then have jb: "0 \<le> j" "j < int (length l)"
      using xrange_list_bounds [OF assms(1)] by blast+
    have jl: "int (length l) \<le> j + n" "j mod n = 0"
      using xrange_list_last [OF assms(1) ne'] by (simp_all add: j_def)
    have len: "int (length (py_slice l j (j + n))) = int (length l) - j"
      using jb jl(1) assms chunk_length [of j n l] by simp
    have "int (length l) mod n = (int (length l) - j) mod n"
      using jl(2) by (metis mod_diff_right_eq diff_zero mod_mod_trivial)
    moreover have "(int (length l) - j) mod n
        = (if int (length l) - j = n then 0 else int (length l) - j)"
      using jb jl(1) assms by (simp add: mod_pos_pos_trivial)
    ultimately have "(if int (length l) mod n = 0 then n else int (length l) mod n)
        = int (length l) - j"
      using jb by (simp split: if_splits)
    with len show ?thesis using ne' by (simp add: last_map j_def)
  qed
  from eq cat full lst show ?thesis by blast
qed

theorem chunked_partition_witness:
  "(0::int) < 3 \<and> (3::int) \<le> sys_maxint
   \<and> int (length [1, 2, 3, 4, 5, 6, 7 :: nat]) \<le> sys_maxint
   \<and> chunked [1, 2, 3, 4, 5, 6, 7 :: nat] 3 = Inr [[1, 2, 3], [4, 5, 6], [7]]
   \<and> (\<exists>cs. chunked [1, 2, 3, 4, 5, 6, 7 :: nat] 3 = Inr cs
         \<and> concat cs = [1, 2, 3, 4, 5, 6, 7]
         \<and> (\<forall>k. Suc k < length cs \<longrightarrow> int (length (cs ! k)) = 3)
         \<and> (cs \<noteq> [] \<longrightarrow> int (length (last cs))
               = (if int (length [1, 2, 3, 4, 5, 6, 7 :: nat]) mod 3 = 0 then 3
                  else int (length [1, 2, 3, 4, 5, 6, 7 :: nat]) mod 3)))"
proof -
  have h: "(0::int) < 3" by simp
  have b: "(3::int) \<le> sys_maxint" by (simp add: sys_maxint_def)
  have m: "int (length [1, 2, 3, 4, 5, 6, 7 :: nat]) \<le> sys_maxint"
    by (simp add: sys_maxint_def)
  have v: "chunked [1, 2, 3, 4, 5, 6, 7 :: nat] 3 = Inr [[1, 2, 3], [4, 5, 6], [7]]"
    by (simp add: chunked_eval)
  show ?thesis
    by (intro conjI h b m v chunked_partition [OF h b m])
qed

text \<open>
  C10, as stated, makes \<open>chunked\<close> total only for a positive size. With a negative size
  \<^verbatim>\<open>xrange(0, len(l), n)\<close> is empty and \<open>chunked\<close> returns, having yielded nothing.
\<close>

theorem chunked_negative_size_returns:
  "chunked [1, 2, 3 :: nat] (- 1) = Inr [] \<and> \<not> (0::int) < - 1"
  by (simp add: chunked_eval)

text \<open>
  C10, amended. For every list \<open>l\<close> (of at most \<^verbatim>\<open>sys.maxint\<close> elements, as every
  Python list is), \<open>chunked\<close> returns exactly for the sizes other than \<open>0\<close> that fit a C
  long: for \<open>1 \<le> n \<le> sys.maxint\<close> after \<open>ceil(len(l) / n)\<close> chunks, none of them
  empty; for \<open>- sys.maxint - 1 \<le> n < 0\<close> with no chunk at all. For \<open>n = 0\<close> the first
  attempt to produce a chunk raises \<^verbatim>\<open>ValueError\<close>, and for a size beyond a C long it
  raises \<^verbatim>\<open>OverflowError\<close>. The \<^verbatim>\<open>--batch\<close> flag hands any integer on as it is,
  non-positive and oversized ones too.
\<close>

theorem chunked_total:
  assumes "int (length l) \<le> sys_maxint"
  shows "(0 < n \<and> n \<le> sys_maxint \<longrightarrow> (\<exists>cs. chunked l n = Inr cs
        \<and> int (length cs) = (int (length l) + n - 1) div n \<and> [] \<notin> set cs))
   \<and> (- sys_maxint - 1 \<le> n \<and> n < 0 \<longrightarrow> chunked l n = Inr [])
   \<and> (n = 0 \<longrightarrow> chunked l n = Inl ValueError)
   \<and> (sys_maxint < n \<or> n < - sys_maxint - 1 \<longrightarrow> chunked l n = Inl OverflowError)
   \<and> batch_arg (Some n) = n"
proof (intro conjI impI)
  assume "0 < n \<and> n \<le> sys_maxint"
  then have n: "0 < n" and nb: "n \<le> sys_maxint" by simp_all
  let ?is = "xrange_list 0 (int (length l)) n"
  let ?cs = "map (\<lambda>i. py_slice l i (i + n)) ?is"
  have "chunked l n = Inr ?cs"
    using n nb assms by (rule chunked_positive)
  moreover have "int (length ?cs) = (int (length l) + n - 1) div n"
  proof -
    have "0 \<le> (int (length l) + n - 1) div n"
      using n by (simp add: pos_imp_zdiv_nonneg_iff)
    then show ?thesis using length_xrange_list [OF n, of 0 "int (length l)"] by simp
  qed
  moreover have "[] \<notin> set ?cs"
  proof
    assume "[] \<in> set ?cs"
    then obtain j where j: "j \<in> set ?is" "py_slice l j (j + n) = []" by auto
    from j(1) have jb: "0 \<le> j" "j < int (length l)"
      using xrange_list_bounds [OF n] by blast+
    then have "int (length (py_slice l j (j + n))) = min n (int (length l) - j)"
      using n chunk_length [of j n l] by simp
    with j(2) jb n show False by simp
  qed
  ultimately show "\<exists>cs. chunked l n = Inr cs
      \<and> int (length cs) = (int (length l) + n - 1) div n \<and> [] \<notin> set cs"
    by blast
next
  assume "- sys_maxint - 1 \<le> n \<and> n < 0"
  then show "chunked l n = Inr []"
    using assms by (simp add: chunked_negative)
next
  assume "n = 0"
  then show "chunked l n = Inl ValueError"
    using assms by (simp add: chunked_zero)
next
  assume "sys_maxint < n \<or> n < - sys_maxint - 1"
  then show "chunked l n = Inl OverflowError"
    by (rule chunked_overflow)
next
  show "batch_arg (Some n) = n" by (simp add: batch_arg_def)
qed

theorem chunked_total_witness:
  "int (length [1, 2, 3, 4, 5, 6, 7 :: nat]) \<le> sys_maxint
   \<and> chunked [1, 2, 3, 4, 5, 6, 7 :: nat] 3 = Inr [[1, 2, 3], [4, 5, 6], [7]]
   \<and> (\<exists>cs. chunked [1, 2, 3, 4, 5, 6, 7 :: nat] 3 = Inr cs \<and> int (length cs) = 3 \<and> [] \<notin> set cs)
   \<and> chunked [1, 2, 3, 4, 5, 6, 7 :: nat] (- 2) = Inr []
   \<and> chunked [1, 2, 3, 4, 5, 6, 7 :: nat] 0 = Inl ValueError
   \<and> chunked [1, 2, 3, 4, 5, 6, 7 :: nat] 9223372036854775808 = Inl OverflowError
   \<and> chunked [1, 2, 3, 4, 5, 6, 7 :: nat] (- 9223372036854775809) = Inl OverflowError
   \<and> batch_arg (Some 0) = 0 \<and> batch_arg (Some (- 2)) = - 2
   \<and> batch_arg (Some 9223372036854775808) = 9223372036854775808 \<and> batch_arg None = 15"
proof -
  let ?l = "[1, 2, 3, 4, 5, 6, 7 :: nat]"
  have m: "int (length ?l) \<le> sys_maxint" by (simp add: sys_maxint_def)
  have v: "chunked ?l 3 = Inr [[1, 2, 3], [4, 5, 6], [7]]"
    by (simp add: chunked_eval)
  have d: "batch_arg None = 15" by (simp add: batch_arg_def)
  show ?thesis
    using m v d chunked_total [OF m, of 3] chunked_total [OF m, of "- 2"]
      chunked_total [OF m, of 0] chunked_total [OF m, of 9223372036854775808]
      chunked_total [OF m, of "- 9223372036854775809"]
    by (simp add: sys_maxint_def)
qed

subsection \<open>The batch driver\<close>

lemmas batch_simps = take_action_def spawn_threads_def process_chunk_def chunked_eval
  wait_active.simps len_active_def

text \<open>
  The driver's unit tests, run on the model: \<^verbatim>\<open>test_no_routers\<close> (nothing is waited
  for), \<^verbatim>\<open>test_router_image_is_latest\<close> and \<^verbatim>\<open>test_router_out_of_date\<close>.
\<close>

lemma test_no_routers:
  "take_action 15 4 ''LATEST'' [] quiet
   = (Return (), quiet\<lparr>trace := [Print (Restarting 15), Print (Spawned 4),
        Print WaitingThreads, SetShutdown, JoinThreads]\<rparr>)"
  by (simp add: batch_simps driver_simps fixtures)

lemma test_router_image_is_latest:
  "take_action 15 4 ''LATEST'' [test_router]
     (quiet\<lparr>nova_replies := [Inr (Some ((vm ''1'' ''ACTIVE'')\<lparr>server_image := ''LATEST''\<rparr>))]\<rparr>)
   = (Return (), quiet\<lparr>trace := [Print (Restarting 15), Print (Spawned 4),
        GetInstance ''123'' ''ak-456'', Print (UpToDate ''123''),
        Print WaitingThreads, SetShutdown, JoinThreads]\<rparr>)"
  by (simp add: batch_simps driver_simps fixtures)

lemma test_router_out_of_date:
  "take_action 15 4 ''LATEST'' [test_router]
     (quiet\<lparr>nova_replies := [Inr (Some (vm ''1'' ''ACTIVE''))], ticks := [Arrive [test_router]]\<rparr>)
   = (Return (), quiet\<lparr>queue := [test_router], active := [test_router],
        trace := [Print (Restarting 15), Print (Spawned 4),
          GetInstance ''123'' ''ak-456'', Print (Rebuilding ''123'' ''ak-456''), Rebuild ''123'',
          Print (Separator 0 1), Print (WaitingOn 1),
          Print WaitingThreads, SetShutdown, JoinThreads]\<rparr>)"
  by (simp add: batch_simps driver_simps fixtures)









text \<open>
  C7 says the driver sleeps between successive checks of the outstanding count. Here two
  routers are rebooting and \<^verbatim>\<open>active\<close> stays empty: the loop reads
  \<^verbatim>\<open>len(self.active)\<close> six times (three rounds) and the trace holds no \<open>Sleep\<close>,
  since \<^verbatim>\<open>time.sleep(5)\<close> stands under \<^verbatim>\<open>if total != new_total\<close>.
\<close>

theorem wait_checks_without_sleeping:
  "wait_active 2 2 (quiet\<lparr>ticks := replicate 6 (Arrive [])\<rparr>) = (Starved, quiet)"
  by (simp add: wait_active.simps len_active_def fixtures numeral_eq_Suc)

text \<open>
  A change of the outstanding count to a value other than 0 is printed, and only then
  the driver sleeps.
\<close>

lemma wait_reports_each_change:
  "wait_active 3 3 (quiet\<lparr>ticks := [Arrive [], Arrive [], Arrive [], Arrive [test_router],
       Arrive [], Arrive [], Arrive [other_router], Arrive [], Arrive [test_router]]\<rparr>)
   = (Return (), quiet\<lparr>active := [test_router, other_router, test_router],
        trace := [Print (WaitingOn 2), Sleep 5, Print (WaitingOn 1), Sleep 5]\<rparr>)"
  by (simp add: wait_active.simps len_active_def cprint_def sleep_def emit_def fixtures)

subsection \<open>The convergence worker\<close>

text \<open>
  C2 says that after an exception the worker goes on with a freshly popped router. Here
  \<^verbatim>\<open>show_router\<close> raises while the worker holds router 123 and router 789 waits in
  the queue: the worker prints the error, appends 123 to the queue, and its next round
  sleeps and asks Neutron for 123 again, with no pop (789 and 123 are both still queued).
\<close>

theorem failed_router_is_polled_again:
  "worker_loop (Some test_router) (Some ''old'')
       (quiet\<lparr>queue := [other_router], flags := [False, False],
          neutron_replies := [Inl (ClientError ''timeout''), Inr (Some test_router)],
          nova_replies := [Inr None]\<rparr>)
     = Running (quiet\<lparr>queue := [other_router, test_router],
         trace := [Sleep 1, ShowRouter ''123'',
           Print (ThreadError ''123'' (ClientError ''timeout'')),
           Sleep 1, ShowRouter ''123'', GetInstance ''123'' ''ak-456'']\<rparr>)"
  by (simp add: worker_simps fixtures)

text \<open>
  C3 says no router is in the queue and in \<^verbatim>\<open>active\<close> at once. Here the lookup of the
  first poll raises, the worker requeues router 123 and keeps polling it, and the second
  poll converges: the run ends with 123 in both deques.
\<close>

theorem requeued_router_in_queue_and_active:
  "check_alive (quiet\<lparr>queue := [test_router], flags := [False, False, False, True],
       nova_replies := [Inr (Some (vm ''old'' ''ACTIVE'')), Inl (ClientError ''timeout''),
         Inr (Some (vm ''new'' ''ACTIVE''))],
       neutron_replies := [Inr (Some test_router), Inr (Some test_router)]\<rparr>)
     = Exited (quiet\<lparr>queue := [test_router], active := [test_router],
         trace := [GetInstance ''123'' ''ak-456'',
           Sleep 1, ShowRouter ''123'', GetInstance ''123'' ''ak-456'',
           Print (ThreadError ''123'' (ClientError ''timeout'')),
           Sleep 1, ShowRouter ''123'', GetInstance ''123'' ''ak-456'',
           Print (IsActive ''123'' ''new''), Print Exiting]\<rparr>)"
  by (simp add: worker_simps fixtures)

text \<open>
  C4. In a poll where neither \<^verbatim>\<open>show_router\<close> nor \<^verbatim>\<open>get_instance\<close> raises and the
  fetched router has its keys, the router is reported converged and appended to
  \<^verbatim>\<open>active\<close> exactly when the server exists, its status is ACTIVE, its id differs from
  the baseline and the router's status is ACTIVE; otherwise the round changes nothing
  but the consumed replies and the trace of the calls, and the loop goes on with the
  same baseline.
\<close>

theorem poll_converges_iff:
  assumes "getitem router ''id'' = Inr i"
    and "neutron_replies s = Inr (Some r') # later_shows"
    and "getitem r' ''id'' = Inr i'" and "getitem r' ''name'' = Inr n'"
    and "getitem r' ''status'' = Inr st"
    and "nova_replies s = Inr found # later_insts"
  shows "(\<forall>srv. found = Some srv \<and> server_status srv = ''ACTIVE''
            \<and> old_uuid \<noteq> Some (server_id srv) \<and> st = ''ACTIVE'' \<longrightarrow>
          poll router old_uuid s =
            (Return (Converged srv), r',
             s\<lparr>neutron_replies := later_shows, nova_replies := later_insts,
                trace := trace s @ [Sleep 1, ShowRouter i, GetInstance i' n']\<rparr>)
          \<and> try_body router old_uuid s =
            (case pop (s\<lparr>neutron_replies := later_shows, nova_replies := later_insts,
                         active := active s @ [r'],
                         trace := trace s @ [Sleep 1, ShowRouter i, GetInstance i' n',
                                    Print (IsActive i' (server_id srv))]\<rparr>) of
               (Raise e, s2) \<Rightarrow> Caught e r' s2
             | (Starved, s2) \<Rightarrow> Stalled s2
             | (Return (r'', old''), s2) \<Rightarrow> Next r'' old'' s2))
       \<and> (\<not> (\<exists>srv. found = Some srv \<and> server_status srv = ''ACTIVE''
            \<and> old_uuid \<noteq> Some (server_id srv) \<and> st = ''ACTIVE'') \<longrightarrow>
          poll router old_uuid s =
            (Return Waiting, r',
             s\<lparr>neutron_replies := later_shows, nova_replies := later_insts,
                trace := trace s @ [Sleep 1, ShowRouter i, GetInstance i' n']\<rparr>)
          \<and> try_body router old_uuid s =
            Next (Some r') old_uuid
              (s\<lparr>neutron_replies := later_shows, nova_replies := later_insts,
                 trace := trace s @ [Sleep 1, ShowRouter i, GetInstance i' n']\<rparr>))"
proof -
  let ?s1 = "s\<lparr>neutron_replies := later_shows, nova_replies := later_insts,
                trace := trace s @ [Sleep 1, ShowRouter i, GetInstance i' n']\<rparr>"
  have gi: "get_instance r' (emit (ShowRouter i) (sleep 1 (s\<lparr>neutron_replies := later_shows\<rparr>)))
      = (Return found, ?s1)"
    using assms(3,4,6) by (simp add: get_instance_def emit_def sleep_def)
  have p: "poll router old_uuid s =
      (case found of
         None \<Rightarrow> Return Waiting
       | Some srv \<Rightarrow>
           if server_status srv = ''ACTIVE'' \<and> old_uuid \<noteq> Some (server_id srv) \<and> st = ''ACTIVE''
           then Return (Converged srv) else Return Waiting, r', ?s1)"
    using assms(1,2,5) gi by (simp add: poll_def split: option.splits)
  show ?thesis
  proof (intro conjI allI impI)
    fix srv
    assume c: "found = Some srv \<and> server_status srv = ''ACTIVE''
        \<and> old_uuid \<noteq> Some (server_id srv) \<and> st = ''ACTIVE''"
    with p show pc: "poll router old_uuid s = (Return (Converged srv), r', ?s1)" by simp
    show "try_body router old_uuid s =
        (case pop (s\<lparr>neutron_replies := later_shows, nova_replies := later_insts,
                     active := active s @ [r'],
                     trace := trace s @ [Sleep 1, ShowRouter i, GetInstance i' n',
                                Print (IsActive i' (server_id srv))]\<rparr>) of
           (Raise e, s2) \<Rightarrow> Caught e r' s2
         | (Starved, s2) \<Rightarrow> Stalled s2
         | (Return (r'', old''), s2) \<Rightarrow> Next r'' old'' s2)"
      using pc assms(3) by (cases s) (simp add: try_body_def cprint_def emit_def)
  next
    assume n: "\<not> (\<exists>srv. found = Some srv \<and> server_status srv = ''ACTIVE''
        \<and> old_uuid \<noteq> Some (server_id srv) \<and> st = ''ACTIVE'')"
    with p show pw: "poll router old_uuid s = (Return Waiting, r', ?s1)"
      by (auto split: option.splits)
    then show "try_body router old_uuid s = Next (Some r') old_uuid ?s1"
      by (simp add: try_body_def)
  qed
qed

theorem poll_converges_iff_witness:
  "try_body test_router (Some ''123'')
       (quiet\<lparr>flags := [True], neutron_replies := [Inr (Some test_router)],
          nova_replies := [Inr (Some (vm ''456'' ''ACTIVE''))]\<rparr>)
     = Next None None
         (quiet\<lparr>active := [test_router],
            trace := [Sleep 1, ShowRouter ''123'', GetInstance ''123'' ''ak-456'',
              Print (IsActive ''123'' ''456'')]\<rparr>)
   \<and> try_body test_router (Some ''123'')
       (quiet\<lparr>flags := [True], neutron_replies := [Inr (Some test_router)],
          nova_replies := [Inr (Some (vm ''123'' ''ACTIVE''))]\<rparr>)
     = Next (Some test_router) (Some ''123'')
         (quiet\<lparr>flags := [True],
            trace := [Sleep 1, ShowRouter ''123'', GetInstance ''123'' ''ak-456'']\<rparr>)"
proof -
  have g: "getitem test_router ''id'' = Inr ''123''" "getitem test_router ''name'' = Inr ''ak-456''"
    "getitem test_router ''status'' = Inr ''ACTIVE''"
    by (simp_all add: getitem_def test_router_def)
  let ?s = "\<lambda>i. quiet\<lparr>flags := [True], neutron_replies := [Inr (Some test_router)],
          nova_replies := [Inr (Some (vm i ''ACTIVE''))]\<rparr>"
  have n: "neutron_replies (?s i) = Inr (Some test_router) # []" for i by (simp add: quiet_def)
  have v: "nova_replies (?s i) = Inr (Some (vm i ''ACTIVE'')) # []" for i by (simp add: quiet_def)
  from poll_converges_iff [OF g(1) n [of "''456''"] g(1) g(2) g(3) v [of "''456''"],
      where old_uuid = "Some ''123''"]
  have a: "try_body test_router (Some ''123'') (?s ''456'')
     = Next None None
         (quiet\<lparr>active := [test_router],
            trace := [Sleep 1, ShowRouter ''123'', GetInstance ''123'' ''ak-456'',
              Print (IsActive ''123'' ''456'')]\<rparr>)"
    by (simp add: vm_def quiet_def pop.simps)
  from poll_converges_iff [OF g(1) n [of "''123''"] g(1) g(2) g(3) v [of "''123''"],
      where old_uuid = "Some ''123''"]
  have b: "try_body test_router (Some ''123'') (?s ''123'')
     = Next (Some test_router) (Some ''123'')
         (quiet\<lparr>flags := [True],
            trace := [Sleep 1, ShowRouter ''123'', GetInstance ''123'' ''ak-456'']\<rparr>)"
    by (simp add: vm_def quiet_def)
  from a b show ?thesis by simp
qed

text \<open>
  C6 says no exception of a call made for a router leaves \<^verbatim>\<open>check_alive\<close>. Here the
  lookup of the baseline in the first \<^verbatim>\<open>pop()\<close> (line 313, before the \<^verbatim>\<open>try\<close>)
  raises: the exception leaves \<^verbatim>\<open>check_alive\<close>, the thread ends, and the popped
  router is in neither deque.
\<close>

theorem baseline_lookup_error_kills_worker:
  "check_alive (quiet\<lparr>queue := [test_router], flags := [False],
       nova_replies := [Inl (ClientError ''timeout'')]\<rparr>)
     = Died (ClientError ''timeout'') (quiet\<lparr>trace := [GetInstance ''123'' ''ak-456'']\<rparr>)"
  by (simp add: worker_simps fixtures)

text \<open>
  Inside the loop an exception escapes too when the reply of \<^verbatim>\<open>show_router\<close> has no
  \<^verbatim>\<open>'router'\<close> key: \<^verbatim>\<open>router\<close> is then the empty dict, and \<^verbatim>\<open>router['id']\<close> raises
  again inside the \<^verbatim>\<open>except\<close> block.
\<close>

lemma router_key_missing_kills_worker:
  "worker_loop (Some test_router) (Some ''old'')
       (quiet\<lparr>flags := [False], neutron_replies := [Inr None]\<rparr>)
     = Died (KeyError ''id'') (quiet\<lparr>trace := [Sleep 1, ShowRouter ''123'']\<rparr>)"
  by (simp add: worker_simps fixtures)

text \<open>
  C8. A worker in the retry loop of \<^verbatim>\<open>pop\<close> on an empty queue, which sleeps one
  time-unit per retry, sees the shutdown flag at the first retry at which it is set:
  after \<open>k\<close> retries that found it clear, \<^verbatim>\<open>pop\<close> returns \<^verbatim>\<open>(None, None)\<close> after
  \<open>k\<close> sleeps, the main loop ends on the empty binding, and \<^verbatim>\<open>check_alive\<close> returns
  with the queue, \<^verbatim>\<open>active\<close> and the scripts of Nova and Neutron as they were.
\<close>

theorem shutdown_seen_on_next_retry:
  "pop (s\<lparr>queue := [], flags := replicate k False @ True # fs\<rparr>)
     = (Return (None, None),
        s\<lparr>queue := [], flags := fs, trace := trace s @ replicate k (Sleep 1)\<rparr>)
   \<and> worker_loop None None s = Exited (s\<lparr>trace := trace s @ [Print Exiting]\<rparr>)
   \<and> check_alive (s\<lparr>queue := [], flags := replicate k False @ True # fs\<rparr>)
     = Exited (s\<lparr>queue := [], flags := fs,
                 trace := trace s @ replicate k (Sleep 1) @ [Print Exiting]\<rparr>)"
proof -
  have p: "pop (s\<lparr>queue := [], flags := replicate k False @ True # fs\<rparr>)
     = (Return (None, None),
        s\<lparr>queue := [], flags := fs, trace := trace s @ replicate k (Sleep 1)\<rparr>)" for s
  proof (induction k arbitrary: s)
    case 0
    show ?case by (subst pop.simps) simp
  next
    case (Suc k)
    have "pop (s\<lparr>queue := [], flags := replicate (Suc k) False @ True # fs\<rparr>)
        = pop ((s\<lparr>trace := trace s @ [Sleep 1]\<rparr>)\<lparr>queue := [], flags := replicate k False @ True # fs\<rparr>)"
      by (subst pop.simps, cases s) (simp add: sleep_def emit_def)
    also have "\<dots> = (Return (None, None),
        s\<lparr>queue := [], flags := fs, trace := trace s @ replicate (Suc k) (Sleep 1)\<rparr>)"
      by (simp add: Suc.IH replicate_append_same)
    finally show ?case .
  qed
  have w: "worker_loop None None s = Exited (s\<lparr>trace := trace s @ [Print Exiting]\<rparr>)"
    by (simp add: worker_loop.simps cprint_def emit_def)
  show ?thesis
    by (simp add: p w check_alive_def worker_loop.simps cprint_def emit_def)
qed

text \<open>
  C9. A worker pops a router \<open>r\<close> (with its keys, and ACTIVE) whose server then has the
  id \<open>old\<close>, the baseline, and its polls see the servers old/ACTIVE, none, new/DOWN,
  new/BUILD and new/ACTIVE, for any \<open>new\<close> other than \<open>old\<close>. After four rounds
  nothing is marked (first equation: the flag script ends there and \<^verbatim>\<open>active\<close> is as
  it was). The fifth poll marks \<open>r\<close> converged (second equation: the script ends
  after five rounds, \<open>r\<close> is in \<^verbatim>\<open>active\<close>, five \<open>ShowRouter\<close> calls were made). When
  the flag is set at the next \<^verbatim>\<open>pop\<close> the worker exits after exactly these five polls
  (third equation).
\<close>

theorem rebooting_vm_converges_at_fifth_poll:
  assumes r: "getitem r ''id'' = Inr i" "getitem r ''name'' = Inr n"
      "getitem r ''status'' = Inr ''ACTIVE''"
    and ids: "old \<noteq> new"
    and v0: "server_id v0 = old"
    and v1: "server_id v1 = old" "server_status v1 = ''ACTIVE''"
    and v3: "server_id v3 = new" "server_status v3 = ''DOWN''"
    and v4: "server_id v4 = new" "server_status v4 = ''BUILD''"
    and v5: "server_id v5 = new" "server_status v5 = ''ACTIVE''"
  shows "check_alive (s\<lparr>queue := q @ [r], flags := replicate 5 False,
        nova_replies := [Inr (Some v0), Inr (Some v1), Inr None, Inr (Some v3),
          Inr (Some v4), Inr (Some v5)] @ later_servers,
        neutron_replies := replicate 5 (Inr (Some r)) @ later_routers\<rparr>)
      = Running (s\<lparr>queue := q, flags := [],
          nova_replies := Inr (Some v5) # later_servers,
          neutron_replies := Inr (Some r) # later_routers,
          trace := trace s @ [GetInstance i n,
            Sleep 1, ShowRouter i, GetInstance i n,
            Sleep 1, ShowRouter i, GetInstance i n,
            Sleep 1, ShowRouter i, GetInstance i n,
            Sleep 1, ShowRouter i, GetInstance i n]\<rparr>)
   \<and> check_alive (s\<lparr>queue := q @ [r], flags := replicate 6 False,
        nova_replies := [Inr (Some v0), Inr (Some v1), Inr None, Inr (Some v3),
          Inr (Some v4), Inr (Some v5)] @ later_servers,
        neutron_replies := replicate 5 (Inr (Some r)) @ later_routers\<rparr>)
      = Running (s\<lparr>queue := q, active := active s @ [r], flags := [],
          nova_replies := later_servers, neutron_replies := later_routers,
          trace := trace s @ [GetInstance i n,
            Sleep 1, ShowRouter i, GetInstance i n,
            Sleep 1, ShowRouter i, GetInstance i n,
            Sleep 1, ShowRouter i, GetInstance i n,
            Sleep 1, ShowRouter i, GetInstance i n,
            Sleep 1, ShowRouter i, GetInstance i n,
            Print (IsActive i new)]\<rparr>)
   \<and> check_alive (s\<lparr>queue := q @ [r], flags := replicate 6 False @ True # later_flags,
        nova_replies := [Inr (Some v0), Inr (Some v1), Inr None, Inr (Some v3),
          Inr (Some v4), Inr (Some v5)] @ later_servers,
        neutron_replies := replicate 5 (Inr (Some r)) @ later_routers\<rparr>)
      = Exited (s\<lparr>queue := q, active := active s @ [r], flags := later_flags,
          nova_replies := later_servers, neutron_replies := later_routers,
          trace := trace s @ [GetInstance i n,
            Sleep 1, ShowRouter i, GetInstance i n,
            Sleep 1, ShowRouter i, GetInstance i n,
            Sleep 1, ShowRouter i, GetInstance i n,
            Sleep 1, ShowRouter i, GetInstance i n,
            Sleep 1, ShowRouter i, GetInstance i n,
            Print (IsActive i new), Print Exiting]\<rparr>)"
proof -
  have ne: "r \<noteq> []" using r(1) by (auto simp: getitem_def)
  have no: "old \<noteq> new" "new \<noteq> old" using ids by auto
  show ?thesis
    using ne no
    by (cases s) (simp add: loop_simps assms numeral_eq_Suc)
qed

theorem rebooting_vm_converges_at_fifth_poll_witness:
  "getitem test_router ''id'' = Inr ''123'' \<and> getitem test_router ''name'' = Inr ''ak-456''
   \<and> getitem test_router ''status'' = Inr ''ACTIVE'' \<and> ''old'' \<noteq> ''new''
   \<and> check_alive (quiet\<lparr>queue := [test_router],
       flags := [False, False, False, False, False],
       nova_replies := [Inr (Some (vm ''old'' ''ACTIVE'')),
         Inr (Some (vm ''old'' ''ACTIVE'')), Inr None, Inr (Some (vm ''new'' ''DOWN'')),
         Inr (Some (vm ''new'' ''BUILD'')), Inr (Some (vm ''new'' ''ACTIVE''))],
       neutron_replies := replicate 5 (Inr (Some test_router))\<rparr>)
     = Running (quiet\<lparr>nova_replies := [Inr (Some (vm ''new'' ''ACTIVE''))],
         neutron_replies := [Inr (Some test_router)],
         trace := [GetInstance ''123'' ''ak-456'',
           Sleep 1, ShowRouter ''123'', GetInstance ''123'' ''ak-456'',
           Sleep 1, ShowRouter ''123'', GetInstance ''123'' ''ak-456'',
           Sleep 1, ShowRouter ''123'', GetInstance ''123'' ''ak-456'',
           Sleep 1, ShowRouter ''123'', GetInstance ''123'' ''ak-456'']\<rparr>)
   \<and> check_alive (quiet\<lparr>queue := [test_router],
       flags := [False, False, False, False, False, False, True],
       nova_replies := [Inr (Some (vm ''old'' ''ACTIVE'')),
         Inr (Some (vm ''old'' ''ACTIVE'')), Inr None, Inr (Some (vm ''new'' ''DOWN'')),
         Inr (Some (vm ''new'' ''BUILD'')), Inr (Some (vm ''new'' ''ACTIVE''))],
       neutron_replies := replicate 5 (Inr (Some test_router))\<rparr>)
     = Exited (quiet\<lparr>active := [test_router],
         trace := [GetInstance ''123'' ''ak-456'',
           Sleep 1, ShowRouter ''123'', GetInstance ''123'' ''ak-456'',
           Sleep 1, ShowRouter ''123'', GetInstance ''123'' ''ak-456'',
           Sleep 1, ShowRouter ''123'', GetInstance ''123'' ''ak-456'',
           Sleep 1, ShowRouter ''123'', GetInstance ''123'' ''ak-456'',
           Sleep 1, ShowRouter ''123'', GetInstance ''123'' ''ak-456'',
           Print (IsActive ''123'' ''new''), Print Exiting]\<rparr>)"
proof -
  have g: "getitem test_router ''id'' = Inr ''123''" "getitem test_router ''name'' = Inr ''ak-456''"
    "getitem test_router ''status'' = Inr ''ACTIVE''"
    by (simp_all add: getitem_def test_router_def)
  have d: "''old'' \<noteq> ''new''" by simp
  have v: "server_id (vm i st) = i" "server_status (vm i st) = st" for i st
    by (simp_all add: vm_def)
  note run = rebooting_vm_converges_at_fifth_poll [OF g d v(1) v v v v,
      where s = quiet and q = "[]" and later_servers = "[]" and later_routers = "[]"
        and later_flags = "[]"]
  from run have a: "check_alive (quiet\<lparr>queue := [test_router],
       flags := [False, False, False, False, False],
       nova_replies := [Inr (Some (vm ''old'' ''ACTIVE'')),
         Inr (Some (vm ''old'' ''ACTIVE'')), Inr None, Inr (Some (vm ''new'' ''DOWN'')),
         Inr (Some (vm ''new'' ''BUILD'')), Inr (Some (vm ''new'' ''ACTIVE''))],
       neutron_replies := replicate 5 (Inr (Some test_router))\<rparr>)
     = Running (quiet\<lparr>nova_replies := [Inr (Some (vm ''new'' ''ACTIVE''))],
         neutron_replies := [Inr (Some test_router)],
         trace := [GetInstance ''123'' ''ak-456'',
           Sleep 1, ShowRouter ''123'', GetInstance ''123'' ''ak-456'',
           Sleep 1, ShowRouter ''123'', GetInstance ''123'' ''ak-456'',
           Sleep 1, ShowRouter ''123'', GetInstance ''123'' ''ak-456'',
           Sleep 1, ShowRouter ''123'', GetInstance ''123'' ''ak-456'']\<rparr>)"
    by (simp add: quiet_def numeral_eq_Suc)
  from run have b: "check_alive (quiet\<lparr>queue := [test_router],
       flags := [False, False, False, False, False, False, True],
       nova_replies := [Inr (Some (vm ''old'' ''ACTIVE'')),
         Inr (Some (vm ''old'' ''ACTIVE'')), Inr None, Inr (Some (vm ''new'' ''DOWN'')),
         Inr (Some (vm ''new'' ''BUILD'')), Inr (Some (vm ''new'' ''ACTIVE''))],
       neutron_replies := replicate 5 (Inr (Some test_router))\<rparr>)
     = Exited (quiet\<lparr>active := [test_router],
         trace := [GetInstance ''123'' ''ak-456'',
           Sleep 1, ShowRouter ''123'', GetInstance ''123'' ''ak-456'',
           Sleep 1, ShowRouter ''123'', GetInstance ''123'' ''ak-456'',
           Sleep 1, ShowRouter ''123'', GetInstance ''123'' ''ak-456'',
           Sleep 1, ShowRouter ''123'', GetInstance ''123'' ''ak-456'',
           Sleep 1, ShowRouter ''123'', GetInstance ''123'' ''ak-456'',
           Print (IsActive ''123'' ''new''), Print Exiting]\<rparr>)"
    by (simp add: quiet_def numeral_eq_Suc)
  from g d a b show ?thesis by (intro conjI)
qed

text \<open>
  \<^verbatim>\<open>test_check_alive_vm_rebooting\<close>: there the first of the five servers is the one the
  baseline is read from, and \<^verbatim>\<open>show_router\<close> is called four times.
\<close>

lemma test_check_alive_vm_rebooting:
  "check_alive (quiet\<lparr>queue := [test_router],
       flags := [False, False, False, False, False, True],
       nova_replies := [Inr (Some (vm ''123'' ''ACTIVE'')), Inr None,
         Inr (Some (vm ''456'' ''DOWN'')), Inr (Some (vm ''456'' ''BUILD'')),
         Inr (Some (vm ''456'' ''ACTIVE''))],
       neutron_replies := replicate 4 (Inr (Some test_router))\<rparr>)
     = Exited (quiet\<lparr>active := [test_router],
         trace := [GetInstance ''123'' ''ak-456'',
           Sleep 1, ShowRouter ''123'', GetInstance ''123'' ''ak-456'',
           Sleep 1, ShowRouter ''123'', GetInstance ''123'' ''ak-456'',
           Sleep 1, ShowRouter ''123'', GetInstance ''123'' ''ak-456'',
           Sleep 1, ShowRouter ''123'', GetInstance ''123'' ''ak-456'',
           Print (IsActive ''123'' ''456''), Print Exiting]\<rparr>)"
  by (simp add: worker_simps fixtures numeral_eq_Suc)

end
